theory Spec2Isabelle
  imports Main
begin

section \<open>The masking filter's rule engine (maskingrules.cc)\<close>

subsection \<open>Logging and undefined behaviour\<close>

text \<open>
  The rewrite operations have two effects: they overwrite the column payload in place and
  they may write to the error log. The embedding passes the payload in and returns the new
  payload together with the log lines written, in order.
\<close>

datatype log_entry =
    NoFillSpecified            \<comment> \<open>\<open>MXS_ERROR("Length of returned value ... no 'fill' value specified.")\<close>\<close>
  | Pcre2Error int             \<comment> \<open>\<open>MXS_PCRE2_PRINT_ERROR(rv)\<close>\<close>
  | MatchDataAllocFailed       \<comment> \<open>\<open>MXS_ERROR("Allocation of matching data for PCRE2 failed. ...")\<close>\<close>

text \<open>
  \<open>fill_buffer\<close> works on raw iterators. Where the C++ would read past the end of the fill
  string or write past the end of the payload, the behaviour is undefined; the embedding
  returns a fault there instead of a payload.
\<close>

datatype fault = ReadPastFill | WriteOutOfRange

subsection \<open>\<open>fill_buffer\<close>\<close>

text \<open>
  \<^verbatim>\<open>
  FillIter pFill = f_first;
  while (o_first != o_last)
  {
      *o_first++ = *pFill++;
      if (pFill == f_last) { pFill = f_first; }
  }
  \<close>
  The iterators are indices: \<open>k\<close> is \<open>pFill\<close> (into the fill string \<open>f\<close>), \<open>i\<close> is
  \<open>o_first\<close> and \<open>j\<close> is \<open>o_last\<close> (both into the buffer \<open>s\<close>).
\<close>

function fill_buffer_loop :: "'a list \<Rightarrow> nat \<Rightarrow> nat \<Rightarrow> nat \<Rightarrow> 'a list \<Rightarrow> fault + 'a list" where
  "fill_buffer_loop f k i j s =
     (if i \<noteq> j then
        (if length f \<le> k then Inl ReadPastFill
         else if length s \<le> i then Inl WriteOutOfRange
         else fill_buffer_loop f (if Suc k = length f then 0 else Suc k) (Suc i) j (s[i := f ! k]))
      else Inr s)"
  by pat_completeness auto
termination
  by (relation "measure (\<lambda>(f, k, i, j, s). length s - i)") auto

definition fill_buffer :: "'a list \<Rightarrow> nat \<Rightarrow> nat \<Rightarrow> 'a list \<Rightarrow> fault + 'a list" where
  "fill_buffer f o_first o_last s = fill_buffer_loop f 0 o_first o_last s"

text \<open>Fill tiling, as a specification: position \<open>n\<close> of the tiled range holds \<open>f ! (n mod |f|)\<close>.\<close>

definition tile :: "'a list \<Rightarrow> nat \<Rightarrow> 'a list" where
  "tile f n = map (\<lambda>m. f ! (m mod length f)) [0..<n]"

subsection \<open>\<open>MaskingRules::ReplaceRule::rewrite\<close>\<close>

text \<open>
  \<open>std::copy(m_value.begin(), m_value.end(), s.begin())\<close> runs only when the two lengths
  are equal, so it overwrites the whole payload with the value.
\<close>

definition ReplaceRule_rewrite :: "string \<Rightarrow> string \<Rightarrow> string \<Rightarrow> fault + (string \<times> log_entry list)" where
  "ReplaceRule_rewrite m_value m_fill s =
     (let total_len = length s;
          rewritten = (m_value \<noteq> [] \<and> length m_value = total_len)
      in if rewritten then Inr (m_value, [])
         else if m_fill \<noteq> [] then
           (case fill_buffer m_fill 0 (length s) s of
              Inl e \<Rightarrow> Inl e
            | Inr s' \<Rightarrow> Inr (s', []))
         else Inr (s, [NoFillSpecified]))"

subsection \<open>\<open>maxscale_basic_obfuscation\<close> and \<open>MaskingRules::ObfuscateRule::rewrite\<close>\<close>

text \<open>
  The routine computes on \<open>char\<close>, whose signedness is implementation-defined in C++
  (signed on x86, unsigned on ARM Linux). The embedding takes it as a parameter:
  \<open>char_to_int\<close> is the integral promotion of a \<open>char\<close>, \<open>int_to_char\<close> the narrowing
  conversion of an \<open>int\<close> back to \<open>char\<close> (the low eight bits).
\<close>

definition char_to_int :: "bool \<Rightarrow> char \<Rightarrow> int" where
  "char_to_int char_is_signed c =
     (let u = of_char c in if char_is_signed \<and> 128 \<le> u then u - 256 else u)"

definition int_to_char :: "int \<Rightarrow> char" where
  "int_to_char n = char_of (n mod 256)"

definition maxscale_basic_obfuscation :: "bool \<Rightarrow> char \<Rightarrow> char" where
  "maxscale_basic_obfuscation char_is_signed c =
     (let ci = char_to_int char_is_signed c in
      if 97 \<le> ci \<and> ci \<le> 122 then int_to_char ((ci - 97 + 13) mod 26 + 97)
      else if 65 \<le> ci \<and> ci \<le> 90 then int_to_char ((ci - 65 + 13) mod 26 + 65)
      else
        (let d = int_to_char (ci + 32);
             d' = (if 127 < char_to_int char_is_signed d then int_to_char 127 else d)
         in d'))"

definition ObfuscateRule_rewrite :: "bool \<Rightarrow> string \<Rightarrow> string" where
  "ObfuscateRule_rewrite char_is_signed s = map (maxscale_basic_obfuscation char_is_signed) s"

text \<open>The ASCII letters \<open>a\<close>-\<open>z\<close> (97-122) and \<open>A\<close>-\<open>Z\<close> (65-90), and ROT13 on them.\<close>

definition is_ascii_letter :: "char \<Rightarrow> bool" where
  "is_ascii_letter c = (let u = (of_char c :: int) in (97 \<le> u \<and> u \<le> 122) \<or> (65 \<le> u \<and> u \<le> 90))"

definition rot13 :: "char \<Rightarrow> char" where
  "rot13 c =
     (let u = (of_char c :: int) in
      if 97 \<le> u \<and> u \<le> 122 then char_of ((u - 97 + 13) mod 26 + 97)
      else if 65 \<le> u \<and> u \<le> 90 then char_of ((u - 65 + 13) mod 26 + 65)
      else c)"

subsection \<open>PCRE2, as far as the rule engine uses it\<close>

text \<open>
  PCRE2 is an external library. A compiled pattern (\<open>pcre2_code*\<close>) is taken as the
  function that \<open>pcre2_match\<close> computes from it: given the subject and the start offset it
  returns the return code \<open>rv\<close> and the first ovector pair \<open>(ovector[0], ovector[1])\<close>, the
  bounds of the full match. The error codes are those of \<open>pcre2.h\<close>. Nothing is assumed
  about the pair: the rewrite uses it as it comes, and the library itself reports a start
  after the end, or before the start offset, for a pattern that resets the match start
  with \<open>\K\<close> inside a lookaround.
\<close>

type_synonym pcre2_code = "string \<Rightarrow> nat \<Rightarrow> int \<times> nat \<times> nat"

definition PCRE2_ERROR_NOMATCH :: int where
  "PCRE2_ERROR_NOMATCH = - 1"

definition PCRE2_ERROR_PARTIAL :: int where
  "PCRE2_ERROR_PARTIAL = - 2"

definition PCRE2_ERROR_BADOFFSET :: int where
  "PCRE2_ERROR_BADOFFSET = - 33"

text \<open>
  A C string ends at its first NUL byte: \<open>s.to_string().c_str()\<close> passed with
  \<open>PCRE2_ZERO_TERMINATED\<close> is the payload up to there.
\<close>

definition c_str :: "string \<Rightarrow> string" where
  "c_str s = takeWhile (\<lambda>c. c \<noteq> CHR 0x00) s"

subsection \<open>\<open>MaskingRules::CaptureRule::rewrite\<close>\<close>

text \<open>
  One pass through the \<open>while\<close>: the loop condition (the offset test, then
  \<open>pcre2_match\<close>) and the loop body. \<open>Exit rv\<close> leaves the loop with the last return
  code, \<open>Next s' startoffset' rv'\<close> goes round again.
\<close>

datatype iteration = Exit int | Next string nat int | Crash fault

definition CaptureRule_iteration :: "pcre2_code \<Rightarrow> string \<Rightarrow> string \<Rightarrow> nat \<Rightarrow> int \<Rightarrow> iteration" where
  "CaptureRule_iteration m_regexp m_fill s startoffset rv =
     (let total_len = length s in
      if startoffset < total_len then
        (case m_regexp (c_str s) startoffset of
           (rv', ov0, ov1) \<Rightarrow>
             if 0 \<le> rv' then
               (if ov1 = ov0 then Exit rv'
                else (case fill_buffer m_fill ov0 ov1 s of
                        Inl e \<Rightarrow> Crash e
                      | Inr s' \<Rightarrow> Next s' ov1 rv'))
             else Exit rv')
      else Exit rv)"

partial_function (option) CaptureRule_loop ::
  "pcre2_code \<Rightarrow> string \<Rightarrow> string \<Rightarrow> nat \<Rightarrow> int \<Rightarrow> (fault + (int \<times> string)) option" where
  "CaptureRule_loop m_regexp m_fill s startoffset rv =
     (case CaptureRule_iteration m_regexp m_fill s startoffset rv of
        Exit rv' \<Rightarrow> Some (Inr (rv', s))
      | Crash e \<Rightarrow> Some (Inl e)
      | Next s' startoffset' rv' \<Rightarrow> CaptureRule_loop m_regexp m_fill s' startoffset' rv')"

declare CaptureRule_loop.simps [code]

text \<open>
  The condition of the final \<open>if\<close> as the source has it:
  \<open>rv < 0 && (rv != PCRE2_ERROR_NOMATCH || PCRE2_ERROR_PARTIAL)\<close>, where the right
  operand of \<open>||\<close> is the constant itself, true because it is not zero.
\<close>

definition log_condition :: "int \<Rightarrow> bool" where
  "log_condition rv \<longleftrightarrow> rv < 0 \<and> (rv \<noteq> PCRE2_ERROR_NOMATCH \<or> PCRE2_ERROR_PARTIAL \<noteq> 0)"

text \<open>
  \<open>pData\<close> says whether \<open>pcre2_match_data_create_from_pattern\<close> returned a match
  data block. \<open>None\<close> is a loop that does not end.
\<close>

definition CaptureRule_rewrite ::
  "bool \<Rightarrow> pcre2_code \<Rightarrow> string \<Rightarrow> string \<Rightarrow> (fault + (string \<times> log_entry list)) option" where
  "CaptureRule_rewrite pData m_regexp m_fill s =
     (if pData then
        (case CaptureRule_loop m_regexp m_fill s 0 0 of
           None \<Rightarrow> None
         | Some (Inl e) \<Rightarrow> Some (Inl e)
         | Some (Inr (rv, s')) \<Rightarrow>
             Some (Inr (s', if log_condition rv then [Pcre2Error rv] else [])))
      else Some (Inr (s, [MatchDataAllocFailed])))"

text \<open>
  A compiled pattern to run the rewrite on: the behaviour of \<open>pcre2_match\<close> for the
  pattern \<open>\d{4}\<close>, the leftmost run of four ASCII digits at or after the start offset.
\<close>

definition is_digit :: "char \<Rightarrow> bool" where
  "is_digit c = (let u = (of_char c :: nat) in 48 \<le> u \<and> u \<le> 57)"

fun digits4_from :: "nat \<Rightarrow> string \<Rightarrow> nat option" where
  "digits4_from p (a # b # c # d # rest) =
     (if is_digit a \<and> is_digit b \<and> is_digit c \<and> is_digit d then Some p
      else digits4_from (Suc p) (b # c # d # rest))"
| "digits4_from p _ = None"

definition digits4 :: pcre2_code where
  "digits4 subject startoffset =
     (if length subject < startoffset then (PCRE2_ERROR_BADOFFSET, 0, 0)
      else (case digits4_from startoffset (drop startoffset subject) of
              Some p \<Rightarrow> (1, p, p + 4)
            | None \<Rightarrow> (PCRE2_ERROR_NOMATCH, 0, 0)))"

text \<open>
  A second one: \<open>pcre2_match\<close> for the pattern \<open>x*\<close>, which matches the run of \<open>x\<close> at
  the start offset, of length zero where there is none.
\<close>

definition x_star :: pcre2_code where
  "x_star subject startoffset =
     (if length subject < startoffset then (PCRE2_ERROR_BADOFFSET, 0, 0)
      else (1, startoffset,
            startoffset + length (takeWhile (\<lambda>c. c = CHR ''x'') (drop startoffset subject))))"

text \<open>
  Two patterns that reset the match start with \<open>\K\<close> inside a lookaround;
  \<open>pcre2_compile\<close> accepts them with options 0 before release 10.38 of the library.
  For \<open>(?=ab\K)\<close> the match is found at the first position \<open>p\<close> followed by \<open>ab\<close>; it
  ends at \<open>p\<close> and its reported start is \<open>p + 2\<close>. For \<open>(?<=\K.)\<close> the match is found
  at the first position \<open>p\<close> preceded by a character other than a newline; it ends at
  \<open>p\<close> and its reported start is \<open>p - 1\<close>, which may lie before the start offset.
\<close>

definition lookahead_k :: pcre2_code where
  "lookahead_k subject startoffset =
     (if length subject < startoffset then (PCRE2_ERROR_BADOFFSET, 0, 0)
      else (case find (\<lambda>p. take 2 (drop p subject) = ''ab'')
                   [startoffset..<Suc (length subject)] of
              Some p \<Rightarrow> (1, p + 2, p)
            | None \<Rightarrow> (PCRE2_ERROR_NOMATCH, 0, 0)))"

definition lookbehind_k :: pcre2_code where
  "lookbehind_k subject startoffset =
     (if length subject < startoffset then (PCRE2_ERROR_BADOFFSET, 0, 0)
      else (case find (\<lambda>p. 0 < p \<and> subject ! (p - 1) \<noteq> CHR 0x0A)
                   [startoffset..<Suc (length subject)] of
              Some p \<Rightarrow> (1, p - 1, p)
            | None \<Rightarrow> (PCRE2_ERROR_NOMATCH, 0, 0)))"

subsection \<open>Accounts\<close>

text \<open>
  \<open>AccountVerbatim\<close> compares user and host verbatim. \<open>AccountRegexp\<close> compares the user
  verbatim and runs the compiled host pattern with
  \<open>pcre2_match(m_pCode, (PCRE2_SPTR)zHost, 0, 0, 0, pData, NULL)\<close>: the third argument is
  the subject length, so the subject handed to PCRE2 is \<open>take 0 zHost\<close>. When the match
  data cannot be allocated (\<open>pData\<close> false), the result of the user comparison stands.
\<close>

datatype account =
    AccountVerbatim string string
  | AccountRegexp string string pcre2_code

fun Account_matches :: "bool \<Rightarrow> account \<Rightarrow> string \<Rightarrow> string \<Rightarrow> bool" where
  "Account_matches pData (AccountVerbatim m_user m_host) zUser zHost =
     ((m_user = [] \<or> m_user = zUser) \<and> (m_host = [] \<or> m_host = zHost))"
| "Account_matches pData (AccountRegexp m_user m_host m_pCode) zUser zHost =
     (let rv = (m_user = [] \<or> m_user = zUser) in
      if rv then
        (if pData then (case m_pCode (take 0 zHost) 0 of (r, ov0, ov1) \<Rightarrow> 0 \<le> r) else rv)
      else rv)"

subsection \<open>Rules and \<open>MaskingRules::Rule::matches\<close>\<close>

record column_def =
  schema :: string
  org_table :: string
  org_name :: string

record rule_base =
  m_column :: string
  m_table :: string
  m_database :: string
  m_applies_to :: "account list"
  m_exempted :: "account list"

datatype rule =
    ReplaceRule rule_base string string
  | ObfuscateRule rule_base
  | CaptureRule rule_base pcre2_code string

fun base :: "rule \<Rightarrow> rule_base" where
  "base (ReplaceRule b m_value m_fill) = b"
| "base (ObfuscateRule b) = b"
| "base (CaptureRule b m_regexp m_fill) = b"

text \<open>
  \<open>std::find_if\<close> over a vector: the position of the first element that satisfies the
  predicate, \<open>end()\<close> (the length) when there is none.
\<close>

fun find_if :: "('a \<Rightarrow> bool) \<Rightarrow> 'a list \<Rightarrow> nat" where
  "find_if P [] = 0"
| "find_if P (x # xs) = (if P x then 0 else Suc (find_if P xs))"

definition Rule_matches :: "bool \<Rightarrow> rule_base \<Rightarrow> column_def \<Rightarrow> string \<Rightarrow> string \<Rightarrow> bool" where
  "Rule_matches pData r cd zUser zHost =
     (let match0 =
            (m_column r = org_name cd \<and>
             (m_table r = [] \<or> m_table r = org_table cd) \<and>
             (m_database r = [] \<or> m_database r = schema cd))
      in if match0 then
           (let matcher = (\<lambda>sAccount. Account_matches pData sAccount zUser zHost);
                match1 = (if length (m_applies_to r) \<noteq> 0
                          then find_if matcher (m_applies_to r) \<noteq> length (m_applies_to r)
                          else match0);
                match2 = (if match1 \<and> length (m_exempted r) \<noteq> 0
                          then find_if matcher (m_exempted r) = length (m_exempted r)
                          else match1)
            in match2)
         else match0)"

subsection \<open>\<open>MaskingRules::get_rule_for\<close>\<close>

definition get_rule_for :: "bool \<Rightarrow> rule list \<Rightarrow> column_def \<Rightarrow> string \<Rightarrow> string \<Rightarrow> rule option" where
  "get_rule_for pData m_rules cd zUser zHost =
     (let i = find_if (\<lambda>sRule. Rule_matches pData (base sRule) cd zUser zHost) m_rules
      in if i \<noteq> length m_rules then Some (m_rules ! i) else None)"

subsection \<open>Loading the rules from JSON\<close>

text \<open>
  The JSON document as the Jansson library hands it over. \<open>json_object_get\<close> returns
  \<open>NULL\<close> (here \<open>None\<close>) for a missing key and for a value that is not an object.
\<close>

datatype json =
    JNull
  | JBool bool
  | JInteger int
  | JString string
  | JArray "json list"
  | JObject "(string \<times> json) list"

fun json_object_get :: "json \<Rightarrow> string \<Rightarrow> json option" where
  "json_object_get (JObject kvs) key = map_of kvs key"
| "json_object_get _ key = None"

fun json_is_array :: "json \<Rightarrow> bool" where
  "json_is_array (JArray xs) = True"
| "json_is_array _ = False"

fun json_is_object :: "json \<Rightarrow> bool" where
  "json_is_object (JObject kvs) = True"
| "json_is_object _ = False"

fun json_is_string :: "json \<Rightarrow> bool" where
  "json_is_string (JString s) = True"
| "json_is_string _ = False"

fun json_string_value :: "json \<Rightarrow> string" where
  "json_string_value (JString s) = s"
| "json_string_value _ = []"

fun json_array_elements :: "json \<Rightarrow> json list" where
  "json_array_elements (JArray xs) = xs"
| "json_array_elements _ = []"

text \<open>
  The helpers of \<open>maxscale/mysql_utils.h\<close> and \<open>pcre2_compile\<close> are not part of this
  file; \<open>create_account\<close> takes them as parameters. \<open>mxs_mysql_trim_quotes\<close> returns the
  trimmed name, or \<open>None\<close> where the C function returns false;
  \<open>mxs_mysql_name_to_pcre\<close> returns the kind of the name and the pattern written to
  \<open>pcre_host\<close>; \<open>pcre2_compile\<close> returns \<open>None\<close> for \<open>NULL\<close>.
\<close>

datatype mxs_mysql_name_kind_t = MXS_MYSQL_NAME_WITH_WILDCARD | MXS_MYSQL_NAME_WITHOUT_WILDCARD

record externals =
  mxs_mysql_trim_quotes :: "string \<Rightarrow> string option"
  mxs_mysql_name_to_pcre :: "string \<Rightarrow> mxs_mysql_name_kind_t \<times> string"
  pcre2_compile :: "string \<Rightarrow> pcre2_code option"

definition AccountRegexp_create :: "externals \<Rightarrow> string \<Rightarrow> string \<Rightarrow> account option" where
  "AccountRegexp_create ext user host =
     (case pcre2_compile ext host of
        Some pCode \<Rightarrow> Some (AccountRegexp user host pCode)
      | None \<Rightarrow> None)"

definition create_account :: "externals \<Rightarrow> string \<Rightarrow> account option" where
  "create_account ext zAccount =
     (let zUser = takeWhile (\<lambda>c. c \<noteq> CHR ''@'') zAccount;
          zHost = (if CHR ''@'' \<in> set zAccount
                   then Some (tl (dropWhile (\<lambda>c. c \<noteq> CHR ''@'') zAccount)) else None)
      in case mxs_mysql_trim_quotes ext zUser of
           Some user \<Rightarrow>
             (let (rv, zHost') =
                    (case zHost of
                       Some h \<Rightarrow>
                         (case mxs_mysql_trim_quotes ext h of
                            Some h' \<Rightarrow>
                              (let (rv, pcre_host) = mxs_mysql_name_to_pcre ext h'
                               in (rv, Some (if rv = MXS_MYSQL_NAME_WITH_WILDCARD then pcre_host else h')))
                          | None \<Rightarrow> (MXS_MYSQL_NAME_WITHOUT_WILDCARD, None))
                     | None \<Rightarrow> (MXS_MYSQL_NAME_WITHOUT_WILDCARD, Some []))
              in case zHost' of
                   Some host \<Rightarrow>
                     (if rv = MXS_MYSQL_NAME_WITH_WILDCARD then AccountRegexp_create ext user host
                      else Some (AccountVerbatim user host))
                 | None \<Rightarrow> None)
         | None \<Rightarrow> None)"

text \<open>
  \<open>get_accounts\<close>: the \<open>while (success && (i < n))\<close> over the array, pushing onto the
  vector passed by reference; the result is the success flag and the vector.
\<close>

fun get_accounts :: "externals \<Rightarrow> json list \<Rightarrow> account list \<Rightarrow> bool \<times> account list" where
  "get_accounts ext [] accounts = (True, accounts)"
| "get_accounts ext (pString # rest) accounts =
     (if json_is_string pString then
        (case create_account ext (json_string_value pString) of
           Some sAccount \<Rightarrow> get_accounts ext rest (accounts @ [sAccount])
         | None \<Rightarrow> (False, accounts))
      else (False, accounts))"

definition validate_user_rules :: "json option \<Rightarrow> json option \<Rightarrow> bool" where
  "validate_user_rules pApplies_to pExempted =
     (let err1 = (case pApplies_to of Some a \<Rightarrow> \<not> json_is_array a | None \<Rightarrow> False);
          err2 = (case pExempted of Some e \<Rightarrow> \<not> json_is_array e | None \<Rightarrow> False)
      in \<not> (err1 \<or> err2))"

definition rule_get_object :: "json \<Rightarrow> string \<Rightarrow> json option" where
  "rule_get_object pRule rule_type =
     (case json_object_get pRule rule_type of
        None \<Rightarrow> None
      | Some pObj \<Rightarrow> if json_is_object pObj then Some pObj else None)"

definition rule_check_database_options :: "json option \<Rightarrow> json option \<Rightarrow> json option \<Rightarrow> bool" where
  "rule_check_database_options pColumn pTable pDatabase =
     ((case pColumn of Some c \<Rightarrow> json_is_string c | None \<Rightarrow> False) \<and>
      (case pTable of Some t \<Rightarrow> json_is_string t | None \<Rightarrow> True) \<and>
      (case pDatabase of Some d \<Rightarrow> json_is_string d | None \<Rightarrow> True))"

text \<open>
  \<open>rule_get_fill\<close> also stores the default fill in the \<open>with\<close> object; nothing reads it
  from there again, so only the returned value is modelled.
\<close>

definition MASKING_DEFAULT_FILL :: string where
  "MASKING_DEFAULT_FILL = ''X''"

definition rule_get_fill :: "json \<Rightarrow> json" where
  "rule_get_fill pDoc =
     (case json_object_get pDoc ''fill'' of
        Some pFill \<Rightarrow> pFill
      | None \<Rightarrow> JString MASKING_DEFAULT_FILL)"

text \<open>
  \<open>rule_run_common_checks\<close>: the account vectors are passed by pointer and returned
  here beside the result. The accounts are read under the condition
  \<open>pApplies_to && pExempted && (!get_accounts(...) || !get_accounts(...))\<close>.
\<close>

definition rule_run_common_checks ::
  "externals \<Rightarrow> json \<Rightarrow> account list \<Rightarrow> account list \<Rightarrow> bool \<times> account list \<times> account list" where
  "rule_run_common_checks ext pRule applies_to exempted =
     (let pApplies_to = json_object_get pRule ''applies_to'';
          pExempted = json_object_get pRule ''exempted''
      in if \<not> validate_user_rules pApplies_to pExempted then (False, applies_to, exempted)
         else (case pApplies_to of
                 None \<Rightarrow> (True, applies_to, exempted)
               | Some a \<Rightarrow>
                   (case pExempted of
                      None \<Rightarrow> (True, applies_to, exempted)
                    | Some e \<Rightarrow>
                        (let (ok1, applies_to') = get_accounts ext (json_array_elements a) applies_to
                         in if \<not> ok1 then (False, applies_to', exempted)
                            else (let (ok2, exempted') = get_accounts ext (json_array_elements e) exempted
                                  in if \<not> ok2 then (False, applies_to', exempted')
                                     else (True, applies_to', exempted'))))))"

definition rule_get_common_values :: "json \<Rightarrow> (string \<times> string \<times> string) option" where
  "rule_get_common_values pRule =
     (let pDatabase = json_object_get pRule ''database'';
          pTable = json_object_get pRule ''table'';
          pColumn = json_object_get pRule ''column''
      in if \<not> rule_check_database_options pColumn pTable pDatabase then None
         else Some (case pColumn of Some c \<Rightarrow> json_string_value c | None \<Rightarrow> [],
                    case pTable of Some t \<Rightarrow> json_string_value t | None \<Rightarrow> [],
                    case pDatabase of Some d \<Rightarrow> json_string_value d | None \<Rightarrow> []))"

definition rule_get_values :: "externals \<Rightarrow> json \<Rightarrow> string \<Rightarrow> rule_base option" where
  "rule_get_values ext pRule rule_type =
     (case rule_get_object pRule rule_type of
        None \<Rightarrow> None
      | Some pKeyObj \<Rightarrow>
          (case rule_run_common_checks ext pRule [] [] of
             (ok, applies_to, exempted) \<Rightarrow>
               if \<not> ok then None
               else (case rule_get_common_values pKeyObj of
                       None \<Rightarrow> None
                     | Some (column, table, database) \<Rightarrow>
                         Some \<lparr>m_column = column, m_table = table, m_database = database,
                               m_applies_to = applies_to, m_exempted = exempted\<rparr>)))"

definition rule_get_capture_fill :: "json \<Rightarrow> (string \<times> string) option" where
  "rule_get_capture_fill pRule =
     (case json_object_get pRule ''with'' of
        None \<Rightarrow> None
      | Some pWith \<Rightarrow>
          if \<not> json_is_object pWith then None
          else (case rule_get_object pRule ''replace'' of
                  None \<Rightarrow> None
                | Some pKeyObj \<Rightarrow>
                    (let pTheFill = rule_get_fill pWith;
                         pTheCapture = json_object_get pKeyObj ''capture''
                     in case pTheCapture of
                          None \<Rightarrow> None
                        | Some cap \<Rightarrow>
                            if \<not> json_is_string pTheFill \<or> \<not> json_is_string cap then None
                            else Some (json_string_value cap, json_string_value pTheFill))))"

definition rule_get_value_fill :: "json \<Rightarrow> (string \<times> string) option" where
  "rule_get_value_fill pRule =
     (case json_object_get pRule ''with'' of
        None \<Rightarrow> None
      | Some pWith \<Rightarrow>
          if \<not> json_is_object pWith then None
          else (let pTheFill = rule_get_fill pWith;
                    pTheValue = json_object_get pWith ''value''
                in case pTheValue of
                     None \<Rightarrow> None
                   | Some v \<Rightarrow>
                       if \<not> json_is_string pTheFill \<or> \<not> json_is_string v then None
                       else Some (json_string_value v, json_string_value pTheFill)))"

definition ReplaceRule_create_from :: "externals \<Rightarrow> json \<Rightarrow> rule option" where
  "ReplaceRule_create_from ext pRule =
     (case rule_get_values ext pRule ''replace'' of
        None \<Rightarrow> None
      | Some b \<Rightarrow>
          (case rule_get_value_fill pRule of
             None \<Rightarrow> None
           | Some (val, fill) \<Rightarrow>
               if val \<noteq> [] \<and> fill \<noteq> [] then Some (ReplaceRule b val fill) else None))"

definition ObfuscateRule_create_from :: "externals \<Rightarrow> json \<Rightarrow> rule option" where
  "ObfuscateRule_create_from ext pRule =
     (case rule_get_values ext pRule ''obfuscate'' of
        None \<Rightarrow> None
      | Some b \<Rightarrow> Some (ObfuscateRule b))"

definition CaptureRule_create_from :: "externals \<Rightarrow> json \<Rightarrow> rule option" where
  "CaptureRule_create_from ext pRule =
     (case rule_get_values ext pRule ''replace'' of
        None \<Rightarrow> None
      | Some b \<Rightarrow>
          (case rule_get_capture_fill pRule of
             None \<Rightarrow> None
           | Some (capture, fill) \<Rightarrow>
               if capture \<noteq> [] \<and> fill \<noteq> [] then
                 (case pcre2_compile ext capture of
                    Some pCode \<Rightarrow> Some (CaptureRule b pCode fill)
                  | None \<Rightarrow> None)
               else None))"

text \<open>
  \<open>create_rules_from_array\<close>: the \<open>while (parsed && (i < n))\<close> over the \<open>rules\<close> array.
  Obfuscate takes precedence over replace, and capture over a literal replace.
\<close>

fun create_rules_from_array :: "externals \<Rightarrow> json list \<Rightarrow> rule list \<Rightarrow> bool \<times> rule list" where
  "create_rules_from_array ext [] rules = (True, rules)"
| "create_rules_from_array ext (pRule # rest) rules =
     (if json_is_object pRule then
        (let pObfuscate = json_object_get pRule ''obfuscate'';
             pReplace = json_object_get pRule ''replace''
         in if pReplace = None \<and> pObfuscate = None then (False, rules)
            else
              (let sRule =
                     (if pObfuscate \<noteq> None then ObfuscateRule_create_from ext pRule
                      else (case pReplace of
                              None \<Rightarrow> None
                            | Some rep \<Rightarrow>
                                if json_object_get rep ''capture'' \<noteq> None
                                then CaptureRule_create_from ext pRule
                                else ReplaceRule_create_from ext pRule))
               in case sRule of
                    Some r \<Rightarrow> create_rules_from_array ext rest (rules @ [r])
                  | None \<Rightarrow> (False, rules)))
      else (False, rules))"

definition create_rules_from_root :: "externals \<Rightarrow> json \<Rightarrow> bool \<times> rule list" where
  "create_rules_from_root ext pRoot =
     (case json_object_get pRoot ''rules'' of
        None \<Rightarrow> (False, [])
      | Some pRules \<Rightarrow>
          if json_is_array pRules then create_rules_from_array ext (json_array_elements pRules) []
          else (False, []))"

text \<open>
  \<open>MaskingRules::create_from\<close>; the result is the \<open>m_rules\<close> of the new object.
  \<open>MaskingRules::parse\<close> and \<open>MaskingRules::load\<close> call it on the document that
  \<open>json_loads\<close> or \<open>json_loadf\<close> returns, and return nothing when that fails.
\<close>

definition MaskingRules_create_from :: "externals \<Rightarrow> json \<Rightarrow> rule list option" where
  "MaskingRules_create_from ext pRoot =
     (case create_rules_from_root ext pRoot of
        (parsed, rules) \<Rightarrow> if parsed then Some rules else None)"

definition MaskingRules_parse :: "externals \<Rightarrow> (string \<Rightarrow> json option) \<Rightarrow> string \<Rightarrow> rule list option" where
  "MaskingRules_parse ext json_loads zJson =
     (case json_loads zJson of
        Some pRoot \<Rightarrow> MaskingRules_create_from ext pRoot
      | None \<Rightarrow> None)"

section \<open>The read/write split router (readwritesplit.hh)\<close>

subsection \<open>Types of the header\<close>

datatype mxs_target_t = TYPE_MASTER | TYPE_ALL

datatype route_target_t =
    TARGET_UNDEFINED | TARGET_MASTER | TARGET_SLAVE | TARGET_NAMED_SERVER | TARGET_ALL | TARGET_RLAG_MAX

datatype reply_state_t =
    REPLY_STATE_START | REPLY_STATE_DONE | REPLY_STATE_RSET_COLDEF | REPLY_STATE_RSET_ROWS

text \<open>
  A backend handle, with the state bits that the \<open>BREF_IS_IN_USE\<close> and \<open>BREF_IS_CLOSED\<close>
  macros test, and the fields of \<open>ROUTER_CLIENT_SES\<close> that routing a query reads or
  writes. The queue holds the classification of each queued packet.
\<close>

record backend =
  bref_in_use :: bool
  bref_closed :: bool
  reply_state :: reply_state_t

record packet =
  session_modifying :: bool
  pure_select :: bool
  modifies_user_variable :: bool
  references_temp_table :: bool

record router_client_ses =
  rses_closed :: bool
  backends :: "backend list"
  use_sql_variables_in :: mxs_target_t
  expected_responses :: int
  query_queue :: "packet list"

subsection \<open>Routing a query\<close>

text \<open>
  Modelled from the spec: the query classifier of section 4.1; the router's source file
  is not among the sources, only its header and the bug694 regression test are. A packet is
  given by what the classifier finds in it. A \<open>SELECT\<close> that modifies a user variable
  under \<open>use_sql_variables_in = all\<close> is rejected outright; session-modifying commands are
  broadcast; a pure \<open>SELECT\<close> goes to a slave unless it references a temporary table;
  everything else goes to the master.
\<close>

datatype classification = Rejected | Routed route_target_t

definition classify :: "mxs_target_t \<Rightarrow> packet \<Rightarrow> classification" where
  "classify sql_variables_in p =
     (if pure_select p \<and> modifies_user_variable p \<and> sql_variables_in = TYPE_ALL then Rejected
      else if session_modifying p then Routed TARGET_ALL
      else if pure_select p then
        (if references_temp_table p then Routed TARGET_MASTER else Routed TARGET_SLAVE)
      else Routed TARGET_MASTER)"

text \<open>
  Modelled from the spec: the recipients of a broadcast (section 4.3, step 3), every
  live, unclosed backend handle whose reply state is \<open>DONE\<close>, by position in the
  session's backend list.
\<close>

definition broadcast_recipients :: "router_client_ses \<Rightarrow> nat list" where
  "broadcast_recipients ses =
     filter (\<lambda>i. bref_in_use (backends ses ! i) \<and> \<not> bref_closed (backends ses ! i) \<and>
                 reply_state (backends ses ! i) = REPLY_STATE_DONE)
       [0..<length (backends ses)]"

text \<open>
  Modelled from the spec: the error kinds of section 7 that routing can raise, and what
  one call of \<open>route_query\<close> does besides changing the session: the backends the packet
  was sent to, the error packet synthesized for the client, and the number of log lines.
\<close>

datatype error_kind = CLASSIFICATION_REJECT | NO_BACKEND

record routing =
  routed_to :: "nat list"
  client_err :: "error_kind option"
  logged :: nat

text \<open>
  Modelled from the spec: \<open>route_query\<close> (section 4.3, "Routing a query", steps 1 to 5,
  and the handling column of section 7). The route selector of section 4.2 is the
  parameter \<open>select\<close>: it returns the chosen backend, or nothing (\<open>NO_BACKEND\<close>).
\<close>

definition route_query ::
  "(router_client_ses \<Rightarrow> route_target_t \<Rightarrow> nat option) \<Rightarrow> router_client_ses \<Rightarrow> packet
     \<Rightarrow> router_client_ses \<times> routing" where
  "route_query select ses p =
     (if 0 < expected_responses ses then
        (ses\<lparr>query_queue := query_queue ses @ [p]\<rparr>,
         \<lparr>routed_to = [], client_err = None, logged = 0\<rparr>)
      else
        (case classify (use_sql_variables_in ses) p of
           Rejected \<Rightarrow>
             (ses, \<lparr>routed_to = [], client_err = Some CLASSIFICATION_REJECT, logged = 1\<rparr>)
         | Routed TARGET_ALL \<Rightarrow>
             (let recipients = broadcast_recipients ses
              in if recipients = [] then
                   (ses, \<lparr>routed_to = [], client_err = Some NO_BACKEND, logged = 1\<rparr>)
                 else
                   (ses\<lparr>expected_responses := int (length recipients)\<rparr>,
                    \<lparr>routed_to = recipients, client_err = None, logged = 0\<rparr>))
         | Routed target \<Rightarrow>
             (case select ses target of
                Some b \<Rightarrow>
                  (ses\<lparr>expected_responses := 1\<rparr>,
                   \<lparr>routed_to = [b], client_err = None, logged = 0\<rparr>)
              | None \<Rightarrow>
                  (ses, \<lparr>routed_to = [], client_err = Some NO_BACKEND, logged = 1\<rparr>))))"

section \<open>Sample inputs\<close>

text \<open>
  Scenario E of the specification: the rule that replaces column \<open>ssn\<close> of table
  \<open>users\<close>, here restricted to the account \<open>bob\<close> and exempting \<open>alice@localhost\<close>; an
  obfuscation rule for the same column behind it; and two column definitions.
\<close>

definition ssn_base :: rule_base where
  "ssn_base =
     \<lparr>m_column = ''ssn'', m_table = ''users'', m_database = [],
      m_applies_to = [AccountVerbatim ''bob'' []],
      m_exempted = [AccountVerbatim ''alice'' ''localhost'']\<rparr>"

definition ssn_rules :: "rule list" where
  "ssn_rules =
     [ReplaceRule ssn_base ''XXXXXXXXX'' ''X'',
      ObfuscateRule \<lparr>m_column = ''ssn'', m_table = [], m_database = [],
                     m_applies_to = [], m_exempted = []\<rparr>]"

definition ssn_column :: column_def where
  "ssn_column = \<lparr>schema = ''db'', org_table = ''users'', org_name = ''ssn''\<rparr>"

definition name_column :: column_def where
  "name_column = \<lparr>schema = ''db'', org_table = ''users'', org_name = ''name''\<rparr>"

text \<open>
  A rules document whose only rule lists \<open>applies_to\<close> and has no \<open>exempted\<close> key:
  \<^verbatim>\<open>{"rules": [{"obfuscate": {"column": "ssn"}, "applies_to": ["bob@localhost"]}]}\<close>
\<close>

definition applies_to_only_doc :: json where
  "applies_to_only_doc =
     JObject [(''rules'', JArray
       [JObject [(''obfuscate'', JObject [(''column'', JString ''ssn'')]),
                 (''applies_to'', JArray [JString ''bob@localhost''])]])]"

text \<open>
  Scenario A of the specification (bug694): a session with \<open>use_sql_variables_in=all\<close>
  and two idle backends, the statement \<open>SELECT @a:=@a+1 as a, test.b FROM test\<close> and the
  statement \<open>USE test\<close>, as the classifier sees them.
\<close>

definition idle_backend :: backend where
  "idle_backend = \<lparr>bref_in_use = True, bref_closed = False, reply_state = REPLY_STATE_DONE\<rparr>"

definition bug694_session :: router_client_ses where
  "bug694_session =
     \<lparr>rses_closed = False, backends = [idle_backend, idle_backend],
      use_sql_variables_in = TYPE_ALL, expected_responses = 0, query_queue = []\<rparr>"

definition select_assigning_variable :: packet where
  "select_assigning_variable =
     \<lparr>session_modifying = True, pure_select = True, modifies_user_variable = True,
      references_temp_table = False\<rparr>"

definition use_test :: packet where
  "use_test =
     \<lparr>session_modifying = True, pure_select = False, modifies_user_variable = False,
      references_temp_table = False\<rparr>"

section \<open>Properties of the rule engine\<close>

subsection \<open>Fill tiling\<close>

lemma fill_buffer_loop_length:
  "fill_buffer_loop f k i j s = Inr s' \<Longrightarrow> length s' = length s"
proof (induction f k i j s rule: fill_buffer_loop.induct)
  case (1 f k i j s)
  show ?case
  proof (cases "i \<noteq> j \<and> k < length f \<and> i < length s")
    case True
    with "1.prems" have "fill_buffer_loop f (if Suc k = length f then 0 else Suc k) (Suc i) j (s[i := f ! k]) = Inr s'"
      by (subst (asm) fill_buffer_loop.simps) simp
    with True "1.IH" have "length s' = length (s[i := f ! k])" by simp
    then show ?thesis by simp
  next
    case False
    with "1.prems" show ?thesis
      by (subst (asm) fill_buffer_loop.simps) (auto split: if_splits)
  qed
qed

text \<open>
  Started at position \<open>k\<close> of the fill, the loop leaves the buffer outside \<open>[i, j)\<close> alone
  and writes the fill cyclically inside.
\<close>

lemma fill_buffer_loop_tile:
  "k < length f \<Longrightarrow> i \<le> j \<Longrightarrow> j \<le> length s \<Longrightarrow>
   fill_buffer_loop f k i j s =
     Inr (take i s @ map (\<lambda>m. f ! ((k + m) mod length f)) [0..<j - i] @ drop j s)"
proof (induction f k i j s rule: fill_buffer_loop.induct)
  case (1 f k i j s)
  show ?case
  proof (cases "i = j")
    case True
    then show ?thesis by (subst fill_buffer_loop.simps) simp
  next
    case False
    let ?k' = "if Suc k = length f then 0 else Suc k"
    let ?s' = "s[i := f ! k]"
    from False "1.prems" have lt: "i < j" "i < length s" by simp_all
    have k': "?k' < length f" using "1.prems"(1) by auto
    have step: "fill_buffer_loop f k i j s = fill_buffer_loop f ?k' (Suc i) j ?s'"
      using False "1.prems" lt by (subst fill_buffer_loop.simps) simp
    have IH: "fill_buffer_loop f ?k' (Suc i) j ?s' =
        Inr (take (Suc i) ?s' @ map (\<lambda>m. f ! ((?k' + m) mod length f)) [0..<j - Suc i] @ drop j ?s')"
      using "1.IH"[OF False _ _ k'] lt "1.prems" by simp
    have kmod: "\<And>m. (?k' + m) mod length f = (k + Suc m) mod length f"
    proof -
      fix m
      show "(?k' + m) mod length f = (k + Suc m) mod length f"
      proof (cases "Suc k = length f")
        case True
        have "k + Suc m = length f + m"
          using True by arith
        then have "(k + Suc m) mod length f = m mod length f"
          by (simp only: mod_add_self1)
        then show ?thesis using True by simp
      next
        case False
        then show ?thesis by simp
      qed
    qed
    have a: "take (Suc i) ?s' = take i s @ [f ! k]"
      using lt by (simp add: take_Suc_conv_app_nth)
    have b: "drop j ?s' = drop j s" using lt by simp
    have c: "map (\<lambda>m. f ! ((k + m) mod length f)) [0..<j - i] =
             f ! k # map (\<lambda>m. f ! ((k + Suc m) mod length f)) [0..<j - Suc i]"
    proof -
      have "[0..<j - i] = 0 # map Suc [0..<j - Suc i]"
        using lt by (metis Suc_diff_Suc map_Suc_upt upt_conv_Cons zero_less_diff)
      then show ?thesis using "1.prems"(1) by (simp add: comp_def)
    qed
    show ?thesis unfolding step IH a b c kmod by simp
  qed
qed

lemma fill_buffer_whole:
  "f \<noteq> [] \<Longrightarrow> fill_buffer f 0 (length s) s = Inr (tile f (length s))"
  using fill_buffer_loop_tile[of 0 f 0 "length s" s] by (simp add: fill_buffer_def tile_def)

lemma fill_buffer_empty: "fill_buffer f 0 0 [] = Inr []"
  by (simp add: fill_buffer_def)

lemma fill_buffer_range:
  assumes "f \<noteq> []" "i \<le> j" "j \<le> length s"
  shows "\<exists>s'. fill_buffer f i j s = Inr s' \<and> length s' = length s"
proof -
  from assms(1) have "0 < length f" by simp
  from fill_buffer_loop_tile [OF this assms(2,3)] obtain s'
    where s': "fill_buffer_loop f 0 i j s = Inr s'" by blast
  from fill_buffer_loop_length [OF s'] s' show ?thesis
    by (simp add: fill_buffer_def)
qed

subsection \<open>Replace\<close>

text \<open>
  C1. A Replace rule with value \<open>v\<close> and fill \<open>f\<close> on a payload \<open>p\<close>: when the lengths of
  \<open>v\<close> and \<open>p\<close> agree the payload becomes \<open>v\<close>; otherwise, with a non-empty fill, it
  becomes the fill tiled over its whole length; and with an empty fill and a length
  mismatch it stays as it is (and the engine logs).
\<close>

theorem ReplaceRule_rewrite_cases:
  "(length v = length p \<longrightarrow> (\<exists>lg. ReplaceRule_rewrite v f p = Inr (v, lg))) \<and>
   (length v \<noteq> length p \<and> f \<noteq> [] \<longrightarrow> ReplaceRule_rewrite v f p = Inr (tile f (length p), [])) \<and>
   (length v \<noteq> length p \<and> f = [] \<longrightarrow> ReplaceRule_rewrite v f p = Inr (p, [NoFillSpecified]))"
proof (intro conjI impI)
  assume eq: "length v = length p"
  show "\<exists>lg. ReplaceRule_rewrite v f p = Inr (v, lg)"
  proof (cases "v = []")
    case True
    with eq have "p = []" by simp
    with True show ?thesis by (simp add: ReplaceRule_rewrite_def fill_buffer_empty)
  next
    case False
    with eq show ?thesis by (simp add: ReplaceRule_rewrite_def)
  qed
next
  assume "length v \<noteq> length p \<and> f \<noteq> []"
  then show "ReplaceRule_rewrite v f p = Inr (tile f (length p), [])"
    by (simp add: ReplaceRule_rewrite_def fill_buffer_whole)
next
  assume "length v \<noteq> length p \<and> f = []"
  then show "ReplaceRule_rewrite v f p = Inr (p, [NoFillSpecified])"
    by (simp add: ReplaceRule_rewrite_def)
qed

text \<open>Scenario E: \<open>123456789\<close> becomes the value, \<open>42\<close> becomes \<open>XX\<close>; without a fill, \<open>42\<close> stays.\<close>

theorem ReplaceRule_rewrite_cases_witness:
  "length ''XXXXXXXXX'' = length ''123456789'' \<and>
   (\<exists>lg. ReplaceRule_rewrite ''XXXXXXXXX'' ''X'' ''123456789'' = Inr (''XXXXXXXXX'', lg)) \<and>
   length ''XXXXXXXXX'' \<noteq> length ''42'' \<and> ''X'' \<noteq> [] \<and>
   ReplaceRule_rewrite ''XXXXXXXXX'' ''X'' ''42'' = Inr (''XX'', []) \<and>
   ReplaceRule_rewrite ''XXXXXXXXX'' [] ''42'' = Inr (''42'', [NoFillSpecified])"
  using ReplaceRule_rewrite_cases [of "''XXXXXXXXX''" "''123456789''" "''X''"]
    ReplaceRule_rewrite_cases [of "''XXXXXXXXX''" "''42''" "''X''"]
    ReplaceRule_rewrite_cases [of "''XXXXXXXXX''" "''42''" "[]"]
  by (simp add: tile_def)

subsection \<open>Obfuscate\<close>

lemma rot13_step:
  fixes x :: int
  assumes "0 \<le> x" "x < 26"
  shows "(x + 13) mod 26 = (if x < 13 then x + 13 else x - 13)"
proof (cases "x < 13")
  case True
  with assms show ?thesis by (simp add: mod_pos_pos_trivial)
next
  case False
  have e: "x + 13 = x - 13 + 26" by arith
  have "(x + 13) mod 26 = (x - 13 + 26) mod 26"
    by (rule arg_cong [where f = "\<lambda>z. z mod 26", OF e])
  also have "\<dots> = (x - 13) mod 26" by (simp only: mod_add_self2)
  also have "\<dots> = x - 13" using False assms by (simp add: mod_pos_pos_trivial)
  finally show ?thesis using False by simp
qed

lemma rot13_twice:
  fixes x :: int
  assumes "0 \<le> x" "x < 26"
  shows "((x + 13) mod 26 + 13) mod 26 = x"
proof -
  let ?y = "(x + 13) mod 26"
  have y: "?y = (if x < 13 then x + 13 else x - 13)" using assms by (rule rot13_step)
  have yr: "0 \<le> ?y" "?y < 26" by simp_all
  have "(?y + 13) mod 26 = (if ?y < 13 then ?y + 13 else ?y - 13)" using yr by (rule rot13_step)
  then show ?thesis using y assms by (simp split: if_splits)
qed

lemma of_char_int_range: "0 \<le> (of_char c :: int) \<and> (of_char c :: int) < 256"
proof -
  have "(of_char c :: int) = int (of_char c)" by (simp add: of_nat_of_char)
  moreover have "(of_char c :: nat) < 256" by simp
  ultimately show ?thesis by simp
qed

lemma int_to_char_of_char: "int_to_char (of_char c) = c"
  by (simp add: int_to_char_def)

text \<open>A byte below 128 is the same number under either signedness.\<close>

lemma obfuscation_lower:
  assumes "97 \<le> (of_char c :: int)" "(of_char c :: int) \<le> 122"
  shows "maxscale_basic_obfuscation sg c = int_to_char ((of_char c - 97 + 13) mod 26 + 97)"
proof -
  from assms have "char_to_int sg c = of_char c" by (simp add: char_to_int_def)
  with assms show ?thesis by (simp add: maxscale_basic_obfuscation_def)
qed

lemma obfuscation_upper:
  assumes "65 \<le> (of_char c :: int)" "(of_char c :: int) \<le> 90"
  shows "maxscale_basic_obfuscation sg c = int_to_char ((of_char c - 65 + 13) mod 26 + 65)"
proof -
  from assms have "char_to_int sg c = of_char c" by (simp add: char_to_int_def)
  with assms show ?thesis by (simp add: maxscale_basic_obfuscation_def)
qed

lemma obfuscation_letter_rot13:
  "is_ascii_letter c \<Longrightarrow> maxscale_basic_obfuscation sg c = rot13 c"
  unfolding is_ascii_letter_def Let_def
  by (auto simp: obfuscation_lower obfuscation_upper rot13_def int_to_char_def)

lemma rot_range:
  fixes u b :: int
  assumes "0 \<le> b" "b + 25 < 128"
  shows "of_char (int_to_char ((u - b + 13) mod 26 + b)) = (u - b + 13) mod 26 + b"
proof -
  let ?r = "(u - b + 13) mod 26 + b"
  have "0 \<le> (u - b + 13) mod 26" "(u - b + 13) mod 26 < 26" by simp_all
  with assms have "0 \<le> ?r" "?r < 256" by arith+
  then have "?r mod 256 = ?r" by (simp add: mod_pos_pos_trivial)
  then show ?thesis by (simp add: int_to_char_def)
qed

lemma obfuscation_twice_lower:
  assumes "97 \<le> (of_char c :: int)" "(of_char c :: int) \<le> 122"
  shows "maxscale_basic_obfuscation sg (maxscale_basic_obfuscation sg c) = c"
proof -
  let ?u = "of_char c :: int"
  let ?y = "(?u - 97 + 13) mod 26"
  let ?d = "int_to_char (?y + 97)"
  have d: "maxscale_basic_obfuscation sg c = ?d" using assms by (rule obfuscation_lower)
  have od: "(of_char ?d :: int) = ?y + 97" by (rule rot_range) simp_all
  have yr: "0 \<le> ?y" "?y < 26" by simp_all
  then have r: "97 \<le> (of_char ?d :: int)" "(of_char ?d :: int) \<le> 122" unfolding od by arith+
  have "maxscale_basic_obfuscation sg ?d = int_to_char ((of_char ?d - 97 + 13) mod 26 + 97)"
    using r by (rule obfuscation_lower)
  also have "(of_char ?d - 97 + 13) mod 26 = (?y + 13) mod 26" unfolding od by simp
  also have "\<dots> = ?u - 97" using rot13_twice [of "?u - 97"] assms by simp
  finally show ?thesis unfolding d by (simp add: int_to_char_of_char)
qed

lemma obfuscation_twice_upper:
  assumes "65 \<le> (of_char c :: int)" "(of_char c :: int) \<le> 90"
  shows "maxscale_basic_obfuscation sg (maxscale_basic_obfuscation sg c) = c"
proof -
  let ?u = "of_char c :: int"
  let ?y = "(?u - 65 + 13) mod 26"
  let ?d = "int_to_char (?y + 65)"
  have d: "maxscale_basic_obfuscation sg c = ?d" using assms by (rule obfuscation_upper)
  have od: "(of_char ?d :: int) = ?y + 65" by (rule rot_range) simp_all
  have yr: "0 \<le> ?y" "?y < 26" by simp_all
  then have r: "65 \<le> (of_char ?d :: int)" "(of_char ?d :: int) \<le> 90" unfolding od by arith+
  have "maxscale_basic_obfuscation sg ?d = int_to_char ((of_char ?d - 65 + 13) mod 26 + 65)"
    using r by (rule obfuscation_upper)
  also have "(of_char ?d - 65 + 13) mod 26 = (?y + 13) mod 26" unfolding od by simp
  also have "\<dots> = ?u - 65" using rot13_twice [of "?u - 65"] assms by simp
  finally show ?thesis unfolding d by (simp add: int_to_char_of_char)
qed

lemma obfuscation_twice_letter:
  "is_ascii_letter c \<Longrightarrow> maxscale_basic_obfuscation sg (maxscale_basic_obfuscation sg c) = c"
  unfolding is_ascii_letter_def Let_def
  using obfuscation_twice_lower obfuscation_twice_upper by blast

text \<open>
  Where \<open>char\<close> is signed, no \<open>char\<close> is greater than 127: the test \<open>d > 127\<close> never
  holds, and a byte that is not a letter becomes \<open>c + 32\<close> narrowed to eight bits.
\<close>

lemma char_to_int_signed_le: "char_to_int True d \<le> 127"
  using of_char_int_range [of d] by (simp add: char_to_int_def Let_def)

lemma obfuscation_signed_other:
  "\<not> is_ascii_letter c \<Longrightarrow>
   maxscale_basic_obfuscation True c = int_to_char (char_to_int True c + 32)"
proof -
  assume n: "\<not> is_ascii_letter c"
  let ?ci = "char_to_int True c"
  have "\<not> (97 \<le> ?ci \<and> ?ci \<le> 122)" "\<not> (65 \<le> ?ci \<and> ?ci \<le> 90)"
    using n of_char_int_range [of c]
    by (auto simp: is_ascii_letter_def char_to_int_def Let_def split: if_splits)
  moreover have "\<not> 127 < char_to_int True (int_to_char (?ci + 32))"
    using char_to_int_signed_le [of "int_to_char (?ci + 32)"] by simp
  ultimately show ?thesis by (auto simp: maxscale_basic_obfuscation_def Let_def)
qed

text \<open>
  C6. The obfuscation maps letters to their ROT13 image (\<open>obfuscation_letter_rot13\<close>),
  but it does not map every other byte \<open>b\<close> to \<open>min (b + 32) 127\<close>. With a signed \<open>char\<close>
  the brace \<open>{\<close> (123) becomes the byte 155 (0x9B), not 127: the sum 155 is narrowed to
  the \<open>char\<close> -101, which is not greater than 127. With an unsigned \<open>char\<close> the byte 250
  (0xFA) becomes 26 (0x1A), not 127: the sum 282 is narrowed to 26 before the test.
\<close>

theorem obfuscation_does_not_saturate:
  "ObfuscateRule_rewrite True [CHR ''{''] = [CHR 0x9B] \<and>
   maxscale_basic_obfuscation True (CHR ''{'') \<noteq> CHR 0x7F \<and>
   ObfuscateRule_rewrite False [CHR 0xFA] = [CHR 0x1A] \<and>
   maxscale_basic_obfuscation False (CHR 0xFA) \<noteq> CHR 0x7F"
  by code_simp

text \<open>
  C9. Obfuscating a payload twice gives back every byte that is an ASCII letter: on
  letters the routine is ROT13, an involution.
\<close>

theorem ObfuscateRule_rewrite_twice_letters:
  "i < length s \<Longrightarrow> is_ascii_letter (s ! i) \<Longrightarrow>
   ObfuscateRule_rewrite sg (ObfuscateRule_rewrite sg s) ! i = s ! i"
  by (simp add: ObfuscateRule_rewrite_def obfuscation_twice_letter)

theorem ObfuscateRule_rewrite_twice_letters_witness:
  "1 < length ''Hi!'' \<and> is_ascii_letter (''Hi!'' ! 1) \<and>
   ObfuscateRule_rewrite True (ObfuscateRule_rewrite True ''Hi!'') ! 1 = ''Hi!'' ! 1"
  using ObfuscateRule_rewrite_twice_letters [of 1 "''Hi!''" True]
  by (simp add: is_ascii_letter_def)

subsection \<open>Capture\<close>

text \<open>
  Whatever the pattern reports, an iteration that goes round again has kept the length
  of the payload, and so has a loop that returns a payload. The two ways in which the
  rewrite can fail to return one are a write out of range and a loop that does not end.
\<close>

lemma fill_buffer_length:
  "fill_buffer f i j s = Inr s' \<Longrightarrow> length s' = length s"
  unfolding fill_buffer_def by (rule fill_buffer_loop_length)

lemma CaptureRule_iteration_length:
  assumes "CaptureRule_iteration re fill s off rv = Next s' off' rv'"
  shows "length s' = length s"
proof -
  obtain r a b where m: "re (c_str s) off = (r, a, b)" by (cases "re (c_str s) off")
  from assms m have "(case fill_buffer fill a b s of Inl e \<Rightarrow> Crash e | Inr t \<Rightarrow> Next t b r) =
      Next s' off' rv'"
    by (simp add: CaptureRule_iteration_def Let_def split: if_splits)
  then have "fill_buffer fill a b s = Inr s'"
    by (cases "fill_buffer fill a b s") simp_all
  then show ?thesis by (rule fill_buffer_length)
qed

lemmas CaptureRule_loop_induct =
  CaptureRule_loop.raw_induct [rotated 1, consumes 1, case_names step]

lemma CaptureRule_loop_length_aux:
  assumes "CaptureRule_loop re fill s off rv = Some y"
  shows "\<forall>r t. y = Inr (r, t) \<longrightarrow> length t = length s"
  using assms
proof (induction re fill s off rv y rule: CaptureRule_loop_induct)
  case (step f re fill s off rv y)
  show ?case
  proof (cases "CaptureRule_iteration re fill s off rv")
    case (Exit r)
    with step.hyps show ?thesis by auto
  next
    case (Next u off' r)
    with step.hyps have "f re fill u off' r = Some y" by simp
    from step.IH [OF this] CaptureRule_iteration_length [OF Next] show ?thesis by simp
  next
    case (Crash e)
    with step.hyps show ?thesis by auto
  qed
qed

lemma CaptureRule_loop_length:
  assumes "CaptureRule_loop re fill s off rv = Some (Inr (rv', s'))"
  shows "length s' = length s"
  using CaptureRule_loop_length_aux [OF assms] by simp

lemma CaptureRule_rewrite_length:
  assumes "CaptureRule_rewrite pData re fill s = Some (Inr (s', lg))"
  shows "length s' = length s"
proof (cases pData)
  case True
  show ?thesis
  proof (cases "CaptureRule_loop re fill s 0 0")
    case None
    with assms True show ?thesis by (simp add: CaptureRule_rewrite_def)
  next
    case (Some y)
    show ?thesis
    proof (cases y)
      case (Inl e)
      with assms True Some show ?thesis by (simp add: CaptureRule_rewrite_def)
    next
      case (Inr p)
      obtain rv t where p: "p = (rv, t)" by (cases p)
      with assms True Some Inr have "t = s'" by (simp add: CaptureRule_rewrite_def)
      with Some Inr p have "CaptureRule_loop re fill s 0 0 = Some (Inr (rv, s'))" by simp
      then show ?thesis by (rule CaptureRule_loop_length)
    qed
  qed
next
  case False
  with assms show ?thesis by (simp add: CaptureRule_rewrite_def)
qed

lemma ReplaceRule_rewrite_length:
  "\<exists>s' lg. ReplaceRule_rewrite v f s = Inr (s', lg) \<and> length s' = length s"
proof (cases "f = []")
  case True
  then show ?thesis by (auto simp: ReplaceRule_rewrite_def)
next
  case False
  from fill_buffer_range [OF False, of 0 "length s" s] obtain t where
    "fill_buffer f 0 (length s) s = Inr t" "length t = length s" by auto
  then show ?thesis by (auto simp: ReplaceRule_rewrite_def)
qed

lemma ObfuscateRule_rewrite_length: "length (ObfuscateRule_rewrite sg s) = length s"
  by (simp add: ObfuscateRule_rewrite_def)

text \<open>
  Scenario F: the pattern \<open>\d{4}\<close> with fill \<open>*\<close>. And a match of length zero leaves
  the loop at once: the pattern \<open>x*\<close> on \<open>abc\<close>.
\<close>

lemma scenario_F:
  "CaptureRule_rewrite True digits4 ''*'' ''card 1234 5678 end'' =
     Some (Inr (''card **** **** end'', [Pcre2Error PCRE2_ERROR_NOMATCH]))"
  by code_simp

lemma zero_length_match_exits:
  "CaptureRule_iteration x_star ''*'' ''abc'' 0 0 = Exit 1 \<and>
   CaptureRule_rewrite True x_star ''*'' ''abc'' = Some (Inr (''abc'', []))"
  by code_simp

text \<open>
  C2. The claim is that every rewrite keeps the payload's length and that fill tiling
  writes exactly over the target range. Replace and Obfuscate do
  (\<open>ReplaceRule_rewrite_length\<close>, \<open>ObfuscateRule_rewrite_length\<close>). Capture does not for
  every rule: for the pattern \<open>(?=ab\K)\<close> with fill \<open>X\<close> on the payload \<open>abcd\<close> the
  library reports the match with the pair \<open>(2, 0)\<close>; the rewrite tests only
  \<open>ovector[1] == ovector[0]\<close> and starts \<open>fill_buffer\<close> at offset 2 with an end that lies
  before it, so the fill runs over the end of the payload.
\<close>

theorem CaptureRule_rewrite_writes_out_of_range:
  "lookahead_k (c_str ''abcd'') 0 = (1, 2, 0) \<and>
   fill_buffer ''X'' 2 0 ''abcd'' = Inl WriteOutOfRange \<and>
   CaptureRule_rewrite True lookahead_k ''X'' ''abcd'' = Some (Inl WriteOutOfRange)"
  by code_simp

text \<open>The final test is the same as \<open>rv < 0\<close>.\<close>

lemma log_condition_iff: "log_condition rv \<longleftrightarrow> rv < 0"
  by (simp add: log_condition_def PCRE2_ERROR_PARTIAL_def)

text \<open>
  C7. The claim is that an error is logged only for a negative return code other than
  \<open>NOMATCH\<close> and \<open>PARTIAL\<close>. The code tests \<open>rv != NOMATCH || PARTIAL\<close> and logs on the
  ordinary no-match too: the pattern \<open>\d{4}\<close> on the payload \<open>abc\<close> ends with \<open>NOMATCH\<close>,
  and the rewrite logs it.
\<close>

theorem CaptureRule_rewrite_logs_nomatch:
  "CaptureRule_rewrite True digits4 ''*'' ''abc'' =
     Some (Inr (''abc'', [Pcre2Error PCRE2_ERROR_NOMATCH]))"
  by code_simp

text \<open>A loop whose iteration leads back to the state it started from does not return.\<close>

lemma CaptureRule_loop_returns_not_stuck:
  assumes "CaptureRule_loop re fill s off rv = Some y"
  shows "CaptureRule_iteration re fill s off rv \<noteq> Next s off rv"
  using assms
proof (induction re fill s off rv y rule: CaptureRule_loop_induct)
  case (step f re fill s off rv y)
  show ?case
  proof
    assume n: "CaptureRule_iteration re fill s off rv = Next s off rv"
    with step.hyps have "f re fill s off rv = Some y" by simp
    from step.IH [OF this] n show False by simp
  qed
qed

lemma CaptureRule_loop_stuck:
  assumes "CaptureRule_iteration re fill s off rv = Next s off rv"
  shows "CaptureRule_loop re fill s off rv = None"
proof (cases "CaptureRule_loop re fill s off rv")
  case None
  then show ?thesis .
next
  case (Some y)
  from CaptureRule_loop_returns_not_stuck [OF Some] assms show ?thesis by simp
qed

text \<open>
  C8. The claim is that the loop cannot live-lock, for every payload and every compiled
  pattern. The code leaves the loop on a match of length zero, but it never tests that
  \<open>ovector[1]\<close> lies after the start offset. For the pattern \<open>(?<=\K.)\<close> with fill \<open>X\<close>
  on the payload \<open>ab\<close> the first iteration tiles the match \<open>(0, 1)\<close> and moves the offset
  to 1; there the library reports \<open>(0, 1)\<close> again, the iteration writes the same byte and
  leaves the offset at 1, and the loop repeats that state for ever.
\<close>

theorem CaptureRule_rewrite_live_lock:
  "CaptureRule_iteration lookbehind_k ''X'' ''ab'' 0 0 = Next ''Xb'' 1 1 \<and>
   CaptureRule_iteration lookbehind_k ''X'' ''Xb'' 1 1 = Next ''Xb'' 1 1 \<and>
   CaptureRule_rewrite True lookbehind_k ''X'' ''ab'' = None"
proof -
  have i0: "CaptureRule_iteration lookbehind_k ''X'' ''ab'' 0 0 = Next ''Xb'' 1 1"
    by code_simp
  have i1: "CaptureRule_iteration lookbehind_k ''X'' ''Xb'' 1 1 = Next ''Xb'' 1 1"
    by code_simp
  have "CaptureRule_loop lookbehind_k ''X'' ''ab'' 0 0 = CaptureRule_loop lookbehind_k ''X'' ''Xb'' 1 1"
    by (subst CaptureRule_loop.simps) (simp only: i0 iteration.case)
  also have "\<dots> = None"
    by (rule CaptureRule_loop_stuck [OF i1])
  finally have "CaptureRule_rewrite True lookbehind_k ''X'' ''ab'' = None"
    by (simp add: CaptureRule_rewrite_def)
  with i0 i1 show ?thesis by (simp only: simp_thms)
qed

subsection \<open>Matching a rule\<close>

lemma find_if_end_iff: "find_if P xs = length xs \<longleftrightarrow> (\<forall>x\<in>set xs. \<not> P x)"
  by (induction xs) auto

lemma find_if_first:
  "find_if P xs \<noteq> length xs \<Longrightarrow>
   find_if P xs < length xs \<and> P (xs ! find_if P xs) \<and> (\<forall>j<find_if P xs. \<not> P (xs ! j))"
proof (induction xs)
  case Nil
  then show ?case by simp
next
  case (Cons x xs)
  show ?case
  proof (cases "P x")
    case True
    then show ?thesis by simp
  next
    case False
    with Cons.prems have "find_if P xs \<noteq> length xs" by simp
    from Cons.IH [OF this] False show ?thesis
      by (auto simp: less_Suc_eq_0_disj)
  qed
qed

lemma find_if_eq:
  assumes "i < length xs" "P (xs ! i)" "\<forall>j<i. \<not> P (xs ! j)"
  shows "find_if P xs = i"
proof -
  let ?k = "find_if P xs"
  from assms(1,2) have "\<not> (\<forall>x\<in>set xs. \<not> P x)" by auto
  then have "?k \<noteq> length xs" by (simp add: find_if_end_iff)
  from find_if_first [OF this] have k: "P (xs ! ?k)" "\<forall>j<?k. \<not> P (xs ! j)" by simp_all
  have "\<not> ?k < i" using k(1) assms(3) by blast
  moreover have "\<not> i < ?k" using k(2) assms(2) by blast
  ultimately show ?thesis by arith
qed

text \<open>
  An account with a host pattern is matched against the empty subject, so its result
  does not depend on the host of the connection.
\<close>

lemma AccountRegexp_matches_any_host:
  "Account_matches pData (AccountRegexp m_user m_host m_pCode) zUser zHost =
   Account_matches pData (AccountRegexp m_user m_host m_pCode) zUser zHost'"
  by simp

text \<open>
  C4. A rule matches a column definition and a connection exactly when its column is
  the column's \<open>org_name\<close>, its table is empty or the column's \<open>org_table\<close>, its database
  is empty or the column's \<open>schema\<close>, some account of a non-empty \<open>applies_to\<close> matches the
  user and host, and no account of a non-empty \<open>exempted\<close> does.
\<close>

theorem Rule_matches_iff:
  "Rule_matches pData r cd zUser zHost \<longleftrightarrow>
     m_column r = org_name cd \<and>
     (m_table r = [] \<or> m_table r = org_table cd) \<and>
     (m_database r = [] \<or> m_database r = schema cd) \<and>
     (m_applies_to r \<noteq> [] \<longrightarrow> (\<exists>a\<in>set (m_applies_to r). Account_matches pData a zUser zHost)) \<and>
     (m_exempted r \<noteq> [] \<longrightarrow> (\<forall>a\<in>set (m_exempted r). \<not> Account_matches pData a zUser zHost))"
  unfolding Rule_matches_def Let_def find_if_end_iff by auto

theorem Rule_matches_iff_witness:
  "m_applies_to ssn_base \<noteq> [] \<and> m_exempted ssn_base \<noteq> [] \<and>
   Rule_matches True ssn_base ssn_column ''bob'' ''localhost'' \<and>
   \<not> Rule_matches True ssn_base ssn_column ''alice'' ''localhost'' \<and>
   \<not> Rule_matches True ssn_base name_column ''bob'' ''localhost''"
  using Rule_matches_iff [of True ssn_base ssn_column "''bob''" "''localhost''"]
    Rule_matches_iff [of True ssn_base ssn_column "''alice''" "''localhost''"]
    Rule_matches_iff [of True ssn_base name_column "''bob''" "''localhost''"]
  by (simp add: ssn_base_def ssn_column_def name_column_def)

subsection \<open>Choosing the rule for a column\<close>

text \<open>
  C10. \<open>get_rule_for\<close> returns nothing exactly when no rule matches, and otherwise the
  first matching rule in the order of the rules array: the rule at the position \<open>i\<close>
  that matches and has no matching rule before it.
\<close>

theorem get_rule_for_first_match:
  "(get_rule_for pData m_rules cd zUser zHost = None \<longleftrightarrow>
      (\<forall>r\<in>set m_rules. \<not> Rule_matches pData (base r) cd zUser zHost)) \<and>
   (i < length m_rules \<and> Rule_matches pData (base (m_rules ! i)) cd zUser zHost \<and>
    (\<forall>j<i. \<not> Rule_matches pData (base (m_rules ! j)) cd zUser zHost) \<longrightarrow>
      get_rule_for pData m_rules cd zUser zHost = Some (m_rules ! i))"
proof (intro conjI impI)
  show "get_rule_for pData m_rules cd zUser zHost = None \<longleftrightarrow>
      (\<forall>r\<in>set m_rules. \<not> Rule_matches pData (base r) cd zUser zHost)"
    by (simp add: get_rule_for_def Let_def find_if_end_iff)
next
  let ?P = "\<lambda>sRule. Rule_matches pData (base sRule) cd zUser zHost"
  assume "i < length m_rules \<and> ?P (m_rules ! i) \<and> (\<forall>j<i. \<not> ?P (m_rules ! j))"
  then have "find_if ?P m_rules = i" "i < length m_rules"
    by (simp_all add: find_if_eq)
  then show "get_rule_for pData m_rules cd zUser zHost = Some (m_rules ! i)"
    by (simp add: get_rule_for_def Let_def)
qed

text \<open>
  For \<open>bob@localhost\<close> both sample rules match the \<open>ssn\<close> column and the first one is
  returned; no rule matches the \<open>name\<close> column.
\<close>

theorem get_rule_for_first_match_witness:
  "\<not> Rule_matches True (base (ssn_rules ! 0)) name_column ''bob'' ''localhost'' \<and>
   \<not> Rule_matches True (base (ssn_rules ! 1)) name_column ''bob'' ''localhost'' \<and>
   get_rule_for True ssn_rules name_column ''bob'' ''localhost'' = None \<and>
   0 < length ssn_rules \<and>
   Rule_matches True (base (ssn_rules ! 0)) ssn_column ''bob'' ''localhost'' \<and>
   Rule_matches True (base (ssn_rules ! 1)) ssn_column ''bob'' ''localhost'' \<and>
   get_rule_for True ssn_rules ssn_column ''bob'' ''localhost'' = Some (ssn_rules ! 0)"
proof -
  have n: "\<forall>r\<in>set ssn_rules. \<not> Rule_matches True (base r) name_column ''bob'' ''localhost''"
    by (simp add: ssn_rules_def ssn_base_def name_column_def Rule_matches_def)
  have m0: "Rule_matches True (base (ssn_rules ! 0)) ssn_column ''bob'' ''localhost''"
    by (simp add: ssn_rules_def ssn_base_def ssn_column_def Rule_matches_def)
  have m1: "Rule_matches True (base (ssn_rules ! 1)) ssn_column ''bob'' ''localhost''"
    by (simp add: ssn_rules_def ssn_base_def ssn_column_def Rule_matches_def)
  have l: "0 < length ssn_rules" by (simp add: ssn_rules_def)
  from get_rule_for_first_match [of True ssn_rules name_column "''bob''" "''localhost''" 0] n
  have a: "get_rule_for True ssn_rules name_column ''bob'' ''localhost'' = None" by blast
  from get_rule_for_first_match [of True ssn_rules ssn_column "''bob''" "''localhost''" 0] m0 l
  have b: "get_rule_for True ssn_rules ssn_column ''bob'' ''localhost'' = Some (ssn_rules ! 0)"
    by simp
  from n have n': "\<not> Rule_matches True (base (ssn_rules ! 0)) name_column ''bob'' ''localhost''"
    "\<not> Rule_matches True (base (ssn_rules ! 1)) name_column ''bob'' ''localhost''"
    by (simp_all add: ssn_rules_def)
  from n' a l m0 m1 b show ?thesis by blast
qed

subsection \<open>Loading the account lists\<close>

text \<open>
  With both keys present the accounts of both arrays are read; with one of them absent
  neither array is read and the check succeeds with the vectors as they were.
\<close>

lemma rule_run_common_checks_both:
  assumes "json_object_get pRule ''applies_to'' = Some (JArray as)"
    and "json_object_get pRule ''exempted'' = Some (JArray es)"
    and "get_accounts ext as [] = (True, A)" and "get_accounts ext es [] = (True, E)"
  shows "rule_run_common_checks ext pRule [] [] = (True, A, E)"
  using assms by (simp add: rule_run_common_checks_def validate_user_rules_def)

lemma rule_run_common_checks_one_absent:
  assumes "json_object_get pRule ''applies_to'' = None \<or> json_object_get pRule ''exempted'' = None"
    and "validate_user_rules (json_object_get pRule ''applies_to'') (json_object_get pRule ''exempted'')"
  shows "rule_run_common_checks ext pRule applies_to exempted = (True, applies_to, exempted)"
  using assms by (auto simp: rule_run_common_checks_def split: option.splits)

text \<open>
  C5. The claim is that the loaded rule holds the accounts of \<open>applies_to\<close> whether or
  not \<open>exempted\<close> is present too. The document with one rule that lists
  \<open>applies_to: ["bob@localhost"]\<close> and has no \<open>exempted\<close> key is accepted, and the rule it
  yields has an empty \<open>applies_to\<close> list, whatever the helper functions do.
\<close>

theorem applies_to_alone_is_dropped:
  "MaskingRules_create_from ext applies_to_only_doc =
     Some [ObfuscateRule \<lparr>m_column = ''ssn'', m_table = [], m_database = [],
                          m_applies_to = [], m_exempted = []\<rparr>]"
  by (simp add: applies_to_only_doc_def MaskingRules_create_from_def create_rules_from_root_def
      ObfuscateRule_create_from_def rule_get_values_def rule_get_object_def
      rule_run_common_checks_def validate_user_rules_def rule_get_common_values_def
      rule_check_database_options_def)

section \<open>Properties of the router\<close>

text \<open>
  C3. With \<open>use_sql_variables_in=all\<close>, a \<open>SELECT\<close> that assigns to a user variable,
  arriving when no reply is outstanding, is sent to no backend, is answered with the
  error packet of \<open>CLASSIFICATION_REJECT\<close>, is logged once and leaves the session as it
  was, in particular open; a session command that follows it, such as \<open>USE test\<close>, is
  then broadcast to the usable backends without an error.
\<close>

theorem select_with_variable_assignment_rejected:
  assumes "use_sql_variables_in ses = TYPE_ALL" "pure_select p" "modifies_user_variable p"
    and "expected_responses ses = 0" "\<not> rses_closed ses"
  shows "length (routed_to (snd (route_query select ses p))) \<le> 1 \<and>
         client_err (snd (route_query select ses p)) = Some CLASSIFICATION_REJECT \<and>
         logged (snd (route_query select ses p)) = 1 \<and>
         fst (route_query select ses p) = ses \<and>
         \<not> rses_closed (fst (route_query select ses p)) \<and>
         (session_modifying q \<and> \<not> pure_select q \<and> broadcast_recipients ses \<noteq> [] \<longrightarrow>
            routed_to (snd (route_query select (fst (route_query select ses p)) q)) =
              broadcast_recipients ses \<and>
            client_err (snd (route_query select (fst (route_query select ses p)) q)) = None \<and>
            \<not> rses_closed (fst (route_query select (fst (route_query select ses p)) q)))"
  using assms by (simp add: route_query_def classify_def Let_def)

theorem select_with_variable_assignment_rejected_witness:
  "use_sql_variables_in bug694_session = TYPE_ALL \<and> pure_select select_assigning_variable \<and>
   modifies_user_variable select_assigning_variable \<and> expected_responses bug694_session = 0 \<and>
   \<not> rses_closed bug694_session \<and>
   session_modifying use_test \<and> \<not> pure_select use_test \<and>
   broadcast_recipients bug694_session = [0, 1] \<and>
   routed_to (snd (route_query (\<lambda>ses t. None) bug694_session select_assigning_variable)) = [] \<and>
   client_err (snd (route_query (\<lambda>ses t. None) bug694_session select_assigning_variable)) =
     Some CLASSIFICATION_REJECT \<and>
   routed_to (snd (route_query (\<lambda>ses t. None)
       (fst (route_query (\<lambda>ses t. None) bug694_session select_assigning_variable)) use_test)) = [0, 1] \<and>
   client_err (snd (route_query (\<lambda>ses t. None)
       (fst (route_query (\<lambda>ses t. None) bug694_session select_assigning_variable)) use_test)) = None"
proof -
  have h: "use_sql_variables_in bug694_session = TYPE_ALL" "pure_select select_assigning_variable"
    "modifies_user_variable select_assigning_variable" "expected_responses bug694_session = 0"
    "\<not> rses_closed bug694_session"
    by (simp_all add: bug694_session_def select_assigning_variable_def)
  have u: "session_modifying use_test" "\<not> pure_select use_test"
    by (simp_all add: use_test_def)
  have b: "broadcast_recipients bug694_session = [0, 1]"
    by (simp add: broadcast_recipients_def bug694_session_def idle_backend_def upt_rec)
  from b have nb: "broadcast_recipients bug694_session \<noteq> []" by simp
  note r = select_with_variable_assignment_rejected [OF h, of "\<lambda>ses t. None" use_test]
  from r have "length (routed_to (snd (route_query (\<lambda>ses t. None) bug694_session select_assigning_variable))) \<le> 1"
    by blast
  moreover from r have e: "fst (route_query (\<lambda>ses t. None) bug694_session select_assigning_variable) = bug694_session"
    by blast
  moreover have "routed_to (snd (route_query (\<lambda>ses t. None) bug694_session select_assigning_variable)) = []"
    using h by (simp add: route_query_def classify_def)
  moreover from r have "client_err (snd (route_query (\<lambda>ses t. None) bug694_session select_assigning_variable)) =
     Some CLASSIFICATION_REJECT" by blast
  moreover from r u nb have "routed_to (snd (route_query (\<lambda>ses t. None)
       (fst (route_query (\<lambda>ses t. None) bug694_session select_assigning_variable)) use_test)) =
       broadcast_recipients bug694_session"
    by blast
  moreover from r u nb have "client_err (snd (route_query (\<lambda>ses t. None)
       (fst (route_query (\<lambda>ses t. None) bug694_session select_assigning_variable)) use_test)) = None"
    by blast
  ultimately show ?thesis using h u b by (simp only: simp_thms)
qed

end
